theory Spec2Isabelle
  imports Complex_Main "HOL-Library.Sublist"
begin

section \<open>Strings and exceptions of the Python source\<close>

text \<open>
  A Python \<open>str\<close> is modelled as a HOL \<open>string\<close> (a list of characters). HOL
  characters are bytes where Python's are code points; the source compares and joins
  strings and never looks inside a character, so nothing below depends on the difference.
  The two characters the source treats specially are named: the line feed, which the
  regular expression \<open>.\<close> does not match, and the double quote, which a commit comment
  must not hold.
\<close>

definition LF :: char where
  "LF = CHR 0x0A"

definition DQUOTE :: char where
  "DQUOTE = CHR 0x22"

text \<open>
  Exceptions are values. \<open>ValueError msg\<close> is a \<open>ValueError\<close> raised by the code under
  \<^verbatim>\<open>src/\<close> with that message, \<open>IndexError\<close> is what indexing an empty list raises, and
  \<open>Propagated e\<close> is an exception \<open>e\<close> that a method of the superclass raised and the
  code let through.
\<close>

datatype 'e error = ValueError string | IndexError | Propagated 'e

text \<open>Python's \<^verbatim>\<open>sub in s\<close> on strings: \<open>sub\<close> occurs in \<open>s\<close> as a contiguous block.\<close>

fun str_contains :: "string \<Rightarrow> string \<Rightarrow> bool" where
  "str_contains sub [] = (sub = [])"
| "str_contains sub (c # cs) = (prefix sub (c # cs) \<or> str_contains sub cs)"

text \<open>
  Python's \<^verbatim>\<open>s.split(sep)\<close>: the occurrences of \<open>sep\<close> are found from the left and do
  not overlap; the text between them is returned, so the result is never empty. An empty
  separator raises \<open>ValueError\<close>.
\<close>

function split_on :: "string \<Rightarrow> string \<Rightarrow> string list" where
  "split_on sep [] = [[]]"
| "split_on sep (c # cs) =
     (if sep \<noteq> [] \<and> prefix sep (c # cs)
      then [] # split_on sep (drop (length sep) (c # cs))
      else (case split_on sep cs of
              [] \<Rightarrow> [[c]]
            | x # xs \<Rightarrow> (c # x) # xs))"
  by pat_completeness auto
termination
  by (relation "measure (\<lambda>(sep, s). length s)") (auto simp: neq_Nil_conv)

definition str_split :: "string \<Rightarrow> string \<Rightarrow> 'e error + string list" where
  "str_split s sep =
     (if sep = [] then Inl (ValueError ''empty separator'') else Inr (split_on sep s))"

text \<open>Python's \<^verbatim>\<open>sep.join(xs)\<close>.\<close>

fun str_join :: "string \<Rightarrow> string list \<Rightarrow> string" where
  "str_join sep [] = []"
| "str_join sep [x] = x"
| "str_join sep (x # y # ys) = x @ sep @ str_join sep (y # ys)"

text \<open>
  Python's \<^verbatim>\<open>str(n)\<close> for an integer: the decimal digits, after a minus sign when
  \<open>n\<close> is negative.
\<close>

definition digit_char :: "nat \<Rightarrow> char" where
  "digit_char d = ''0123456789'' ! d"

fun digits :: "nat \<Rightarrow> string" where
  "digits n = (if n < 10 then [digit_char n] else digits (n div 10) @ [digit_char (n mod 10)])"

definition str_int :: "int \<Rightarrow> string" where
  "str_int n = (if n < 0 then CHR ''-'' # digits (nat (- n)) else digits (nat n))"

section \<open>The connection object\<close>

text \<open>
  The fields of \<^verbatim>\<open>self\<close> that the modelled methods read or assign. \<open>legacy_mode\<close> is the
  attribute \<^verbatim>\<open>_legacy_mode\<close>. \<open>chan\<close> stands for everything else the object holds:
  the transport, its buffers and, behind them, the remote device.
\<close>

record 'd connection =
  fast_cli :: bool
  legacy_mode :: bool
  base_prompt :: string
  RESPONSE_RETURN :: string
  chan :: 'd

section \<open>Response sanitizer: \<^verbatim>\<open>JuniperBase.strip_context_items\<close>\<close>

text \<open>
  Each of the six entries of \<^verbatim>\<open>strings_to_strip\<close> is a regular expression of the form
  \<^emph>\<open>literal\<close>\<^verbatim>\<open>.*\<close>\<^emph>\<open>literal\<close>; it is kept as the pair of its two literals.
  \<^verbatim>\<open>re.search\<close> looks for a match starting anywhere in the line, and \<^verbatim>\<open>.\<close> matches
  every character but the line feed.
\<close>

type_synonym pattern = "string \<times> string"

definition strings_to_strip :: "pattern list" where
  "strings_to_strip =
     [(''[edit'', '']''),
      (''{master:'', ''}''),
      (''{backup:'', ''}''),
      (''{line'', ''}''),
      (''{primary'', ''}''),
      (''{secondary'', ''}'')]"

fun dot_star_then :: "string \<Rightarrow> string \<Rightarrow> bool" where
  "dot_star_then suf [] = (suf = [])"
| "dot_star_then suf (c # cs) = (prefix suf (c # cs) \<or> (c \<noteq> LF \<and> dot_star_then suf cs))"

fun re_search :: "pattern \<Rightarrow> string \<Rightarrow> bool" where
  "re_search (pre, suf) [] = (pre = [] \<and> dot_star_then suf [])"
| "re_search (pre, suf) (c # cs) =
     (prefix pre (c # cs) \<and> dot_star_then suf (drop (length pre) (c # cs))
      \<or> re_search (pre, suf) cs)"

text \<open>The loop over \<^verbatim>\<open>strings_to_strip\<close> returns at the first pattern found in the line.\<close>

definition matches_context_item :: "string \<Rightarrow> bool" where
  "matches_context_item last_line = list_ex (\<lambda>pattern. re_search pattern last_line) strings_to_strip"

definition strip_context_items :: "'d connection \<Rightarrow> string \<Rightarrow> 'e error + string" where
  "strip_context_items self a_string =
     (case str_split a_string (RESPONSE_RETURN self) of
        Inl e \<Rightarrow> Inl e
      | Inr response_list \<Rightarrow>
          (case rev response_list of
             [] \<Rightarrow> Inl IndexError
           | last_line # _ \<Rightarrow>
               if matches_context_item last_line
               then Inr (str_join (RESPONSE_RETURN self) (butlast response_list))
               else Inr a_string))"

section \<open>The superclass and the exception-and-state monad\<close>

text \<open>
  \<^verbatim>\<open>JuniperBase\<close> extends \<^verbatim>\<open>BaseConnection\<close>, \<^verbatim>\<open>HPComwareBase\<close> extends
  \<^verbatim>\<open>CiscoSSHConnection\<close>; neither superclass is among the sources. The inherited methods
  the code calls are therefore parameters: each takes its arguments and the object, and
  returns a value or an exception together with the object as it left it. Nothing is
  assumed of them. \<open>select_delay_factor\<close> only computes a number; \<open>re_escape\<close> is the
  library function \<^verbatim>\<open>re.escape\<close>.
\<close>

record ('d, 'e) base_connection =
  select_delay_factor :: "'d connection \<Rightarrow> real \<Rightarrow> real"
  super_check_config_mode :: "string \<Rightarrow> 'd connection \<Rightarrow> ('e + bool) \<times> 'd connection"
  super_config_mode :: "string \<Rightarrow> string \<Rightarrow> int \<Rightarrow> 'd connection \<Rightarrow> ('e + string) \<times> 'd connection"
  super_exit_config_mode :: "string \<Rightarrow> string \<Rightarrow> 'd connection \<Rightarrow> ('e + string) \<times> 'd connection"
  send_command_timing :: "string \<Rightarrow> bool \<Rightarrow> bool \<Rightarrow> 'd connection \<Rightarrow> ('e + string) \<times> 'd connection"
  send_command ::
    "string \<Rightarrow> string option \<Rightarrow> bool \<Rightarrow> bool \<Rightarrow> real \<Rightarrow> 'd connection \<Rightarrow> ('e + string) \<times> 'd connection"
  re_escape :: "string \<Rightarrow> string"

text \<open>
  Every call into the superclass that can reach the channel is recorded, with its
  arguments, in the order the calls are made. The record is kept beside the object, out
  of reach of the superclass, and is what the statements about writes are made of.
\<close>

datatype call =
    CheckConfigMode string
  | ConfigMode string string int
  | ExitConfigMode string string
  | SendCommandTiming string bool bool
  | SendCommand string "string option" bool bool real

record 'd world =
  conn :: "'d connection"
  calls :: "call list"

type_synonym ('d, 'e, 'a) action = "'d world \<Rightarrow> ('e error + 'a) \<times> 'd world"

definition and_then :: "('d, 'e, 'a) action \<Rightarrow> ('a \<Rightarrow> ('d, 'e, 'b) action) \<Rightarrow> ('d, 'e, 'b) action" where
  "and_then m f w = (case m w of (Inl e, w') \<Rightarrow> (Inl e, w') | (Inr v, w') \<Rightarrow> f v w')"

definition return :: "'a \<Rightarrow> ('d, 'e, 'a) action" where
  "return v w = (Inr v, w)"

definition raise :: "'e error \<Rightarrow> ('d, 'e, 'a) action" where
  "raise e w = (Inl e, w)"

text \<open>\<^verbatim>\<open>try: body finally: self.field = value\<close>: the assignment runs however the body ends.\<close>

definition try_finally :: "('d, 'e, 'a) action \<Rightarrow> ('d connection \<Rightarrow> 'd connection) \<Rightarrow> ('d, 'e, 'a) action" where
  "try_finally body assign w = (case body w of (r, w') \<Rightarrow> (r, w'\<lparr>conn := assign (conn w')\<rparr>))"

definition assign_self :: "('d connection \<Rightarrow> 'd connection) \<Rightarrow> ('d, 'e, unit) action" where
  "assign_self assign w = (Inr (), w\<lparr>conn := assign (conn w)\<rparr>)"

definition call_super :: "call \<Rightarrow> ('d connection \<Rightarrow> ('e + 'a) \<times> 'd connection) \<Rightarrow> ('d, 'e, 'a) action" where
  "call_super ev method w =
     (case method (conn w) of
        (r, c') \<Rightarrow>
          ((case r of Inl e \<Rightarrow> Inl (Propagated e) | Inr v \<Rightarrow> Inr v),
           \<lparr>conn = c', calls = calls w @ [ev]\<rparr>))"

text \<open>A keyword parameter with a default: \<open>None\<close> when the caller leaves it out.\<close>

definition arg_or :: "'a option \<Rightarrow> 'a \<Rightarrow> 'a" where
  "arg_or given dflt = (case given of None \<Rightarrow> dflt | Some v \<Rightarrow> v)"

section \<open>Juniper: mode transitions\<close>

definition juniper_check_config_mode ::
  "('d, 'e) base_connection \<Rightarrow> string option \<Rightarrow> ('d, 'e, bool) action" where
  "juniper_check_config_mode base check_string =
     (let check_string = arg_or check_string '']''
      in call_super (CheckConfigMode check_string) (super_check_config_mode base check_string))"

definition juniper_config_mode ::
  "('d, 'e) base_connection \<Rightarrow> string option \<Rightarrow> string option \<Rightarrow> int option \<Rightarrow> ('d, 'e, string) action" where
  "juniper_config_mode base config_command pattern re_flags =
     (let config_command = arg_or config_command ''configure'';
          pattern = arg_or pattern ''Entering configuration mode'';
          re_flags = arg_or re_flags 0
      in call_super (ConfigMode config_command pattern re_flags)
           (super_config_mode base config_command pattern re_flags))"

definition juniper_exit_config_mode ::
  "('d, 'e) base_connection \<Rightarrow> string option \<Rightarrow> ('d, 'e, string) action" where
  "juniper_exit_config_mode base exit_config =
     (let exit_config = arg_or exit_config ''exit configuration-mode'';
          output = []
      in and_then (juniper_check_config_mode base None) (\<lambda>in_config.
           if in_config then
             and_then (call_super (SendCommandTiming exit_config False False)
                         (send_command_timing base exit_config False False)) (\<lambda>output.
             and_then (if str_contains ''Exit with uncommitted changes?'' output
                       then and_then (call_super (SendCommandTiming ''yes'' False False)
                                        (send_command_timing base ''yes'' False False))
                              (\<lambda>more. return (output @ more))
                       else return output) (\<lambda>output.
             and_then (juniper_check_config_mode base None) (\<lambda>still_in_config.
               if still_in_config
               then raise (ValueError ''Failed to exit configuration mode'')
               else return output)))
           else return output))"

section \<open>Juniper: commit\<close>

text \<open>
  The arguments of \<^verbatim>\<open>commit\<close>. \<open>confirm_delay\<close> is \<^verbatim>\<open>None\<close> or an integer, and
  \<open>truthy\<close> is its truth value where the source tests it: \<^verbatim>\<open>None\<close> and \<open>0\<close> are false.
\<close>

record commit_args =
  confirm :: bool
  confirm_delay :: "int option"
  check :: bool
  comment :: string
  and_quit :: bool
  delay_factor :: real

definition truthy :: "int option \<Rightarrow> bool" where
  "truthy v = (case v of None \<Rightarrow> False | Some n \<Rightarrow> n \<noteq> 0)"

text \<open>
  The part of \<^verbatim>\<open>commit\<close> that touches nothing but its arguments: the two checks of
  the arguments, the choice of command string and marker, the comment and
  \<^verbatim>\<open>and-quit\<close>. It yields the exception, or the command string with the marker.
\<close>

definition commit_command :: "commit_args \<Rightarrow> 'e error + string \<times> string" where
  "commit_command a =
     (if check a \<and> (confirm a \<or> truthy (confirm_delay a) \<or> comment a \<noteq> [])
      then Inl (ValueError ''Invalid arguments supplied with commit check'')
      else if truthy (confirm_delay a) \<and> \<not> confirm a
      then Inl (ValueError ''Invalid arguments supplied to commit method both confirm and check'')
      else
        let (command_string, commit_marker) =
              (if check a then (''commit check'', ''configuration check succeeds'')
               else if confirm a then
                 ((case confirm_delay a of
                     None \<Rightarrow> ''commit confirmed''
                   | Some n \<Rightarrow>
                       if n \<noteq> 0 then ''commit confirmed '' @ str_int n else ''commit confirmed''),
                  ''commit confirmed will be automatically rolled back in'')
               else (''commit'', ''commit complete''))
        in if comment a \<noteq> [] \<and> DQUOTE \<in> set (comment a)
           then Inl (ValueError ''Invalid comment contains double quote'')
           else
             let command_string =
                   (if comment a \<noteq> []
                    then command_string @ '' comment '' @ [DQUOTE] @ comment a @ [DQUOTE]
                    else command_string);
                 command_string =
                   (if and_quit a then command_string @ '' and-quit'' else command_string)
             in Inr (command_string, commit_marker))"

definition commit_failed :: "string \<Rightarrow> 'e error" where
  "commit_failed output = ValueError (''Commit failed with the following errors:'' @ [LF, LF] @ output)"

text \<open>The delay factor \<^verbatim>\<open>commit\<close> passes on, and the pattern it waits for.\<close>

definition commit_delay_factor :: "('d, 'e) base_connection \<Rightarrow> 'd connection \<Rightarrow> commit_args \<Rightarrow> real" where
  "commit_delay_factor base self a =
     (let delay_factor = select_delay_factor base self (delay_factor a)
      in if delay_factor < 1 \<and> \<not> legacy_mode self \<and> fast_cli self then 1 else delay_factor)"

definition commit_expect_string :: "('d, 'e) base_connection \<Rightarrow> 'd connection \<Rightarrow> commit_args \<Rightarrow> string option" where
  "commit_expect_string base self a =
     (if and_quit a then Some (re_escape base (base_prompt self)) else None)"

definition commit :: "('d, 'e) base_connection \<Rightarrow> commit_args \<Rightarrow> ('d, 'e, string) action" where
  "commit base a w =
     (let delay_factor = commit_delay_factor base (conn w) a
      in case commit_command a of
           Inl e \<Rightarrow> raise e w
         | Inr (command_string, commit_marker) \<Rightarrow>
             and_then (juniper_config_mode base None None None) (\<lambda>output w1.
               let expect_string = commit_expect_string base (conn w1) a;
                   fast_cli_state = fast_cli (conn w1)
               in and_then
                    (try_finally
                       (and_then (assign_self (\<lambda>self. self\<lparr>fast_cli := False\<rparr>)) (\<lambda>_.
                          call_super (SendCommand command_string expect_string False False delay_factor)
                            (send_command base command_string expect_string False False delay_factor)))
                       (\<lambda>self. self\<lparr>fast_cli := fast_cli_state\<rparr>))
                    (\<lambda>more.
                       let output = output @ more
                       in if \<not> str_contains commit_marker output
                          then raise (commit_failed output)
                          else return output)
                    w1)
               w)"

section \<open>HP Comware: the enable tier\<close>

definition hp_comware_config_mode ::
  "('d, 'e) base_connection \<Rightarrow> string option \<Rightarrow> string option \<Rightarrow> int option \<Rightarrow> ('d, 'e, string) action" where
  "hp_comware_config_mode base config_command pattern re_flags =
     (let config_command = arg_or config_command ''system-view'';
          pattern = arg_or pattern [];
          re_flags = arg_or re_flags 0
      in call_super (ConfigMode config_command pattern re_flags)
           (super_config_mode base config_command pattern re_flags))"

definition hp_comware_exit_config_mode ::
  "('d, 'e) base_connection \<Rightarrow> string option \<Rightarrow> string option \<Rightarrow> ('d, 'e, string) action" where
  "hp_comware_exit_config_mode base exit_config pattern =
     (let exit_config = arg_or exit_config ''return'';
          pattern = arg_or pattern ''>''
      in call_super (ExitConfigMode exit_config pattern)
           (super_exit_config_mode base exit_config pattern))"

definition hp_comware_check_config_mode ::
  "('d, 'e) base_connection \<Rightarrow> string option \<Rightarrow> ('d, 'e, bool) action" where
  "hp_comware_check_config_mode base check_string =
     (let check_string = arg_or check_string '']''
      in call_super (CheckConfigMode check_string) (super_check_config_mode base check_string))"

definition enable :: "('d, 'e) base_connection \<Rightarrow> string option \<Rightarrow> ('d, 'e, string) action" where
  "enable base cmd =
     (let cmd = arg_or cmd ''system-view''
      in hp_comware_config_mode base (Some cmd) None None)"

definition exit_enable_mode :: "('d, 'e) base_connection \<Rightarrow> string option \<Rightarrow> ('d, 'e, string) action" where
  "exit_enable_mode base exit_command =
     (let exit_command = arg_or exit_command ''return''
      in hp_comware_exit_config_mode base (Some exit_command) None)"

definition check_enable_mode :: "('d, 'e) base_connection \<Rightarrow> string option \<Rightarrow> ('d, 'e, bool) action" where
  "check_enable_mode base check_string =
     (let check_string = arg_or check_string '']''
      in hp_comware_check_config_mode base (Some check_string))"

section \<open>The specification's vocabulary\<close>

text \<open>
  The source raises \<open>ValueError\<close> throughout. The specification's
  \<open>InvalidCommitArguments\<close> is the \<open>ValueError\<close> of one of the three checks of the
  arguments, told by its message.
\<close>

definition invalid_commit_messages :: "string list" where
  "invalid_commit_messages =
     [''Invalid arguments supplied with commit check'',
      ''Invalid arguments supplied to commit method both confirm and check'',
      ''Invalid comment contains double quote'']"

definition is_InvalidCommitArguments :: "'e error \<Rightarrow> bool" where
  "is_InvalidCommitArguments e =
     (case e of ValueError msg \<Rightarrow> msg \<in> set invalid_commit_messages | _ \<Rightarrow> False)"

definition raises :: "('e error \<Rightarrow> bool) \<Rightarrow> 'e error + 'a \<Rightarrow> bool" where
  "raises kind r = (case r of Inl e \<Rightarrow> kind e | Inr _ \<Rightarrow> False)"

text \<open>
  The illegal combinations of arguments, in the specification's words. An argument is
  supplied when the source finds it true: \<open>confirm\<close> when it is \<open>True\<close>, the comment when
  it is not empty, \<open>confirm_delay\<close> when it is neither \<^verbatim>\<open>None\<close> nor \<open>0\<close> (on the
  specification's optional positive integer: when it is not \<^verbatim>\<open>None\<close>).
\<close>

definition spec_invalid_arguments :: "commit_args \<Rightarrow> bool" where
  "spec_invalid_arguments a \<longleftrightarrow>
     check a \<and> (confirm a \<or> truthy (confirm_delay a) \<or> comment a \<noteq> [])
     \<or> truthy (confirm_delay a) \<and> \<not> confirm a
     \<or> DQUOTE \<in> set (comment a)"

text \<open>The specification's table of commands and markers, read from the top.\<close>

definition spec_table_command :: "commit_args \<Rightarrow> string" where
  "spec_table_command a =
     (if check a then ''commit check''
      else if confirm a \<and> truthy (confirm_delay a)
      then ''commit confirmed '' @ str_int (the (confirm_delay a))
      else if confirm a then ''commit confirmed''
      else ''commit'')"

definition spec_table_marker :: "commit_args \<Rightarrow> string" where
  "spec_table_marker a =
     (if check a then ''configuration check succeeds''
      else if confirm a then ''commit confirmed will be automatically rolled back in''
      else ''commit complete'')"

definition spec_command_string :: "commit_args \<Rightarrow> string" where
  "spec_command_string a =
     spec_table_command a
     @ (if comment a \<noteq> [] then '' comment '' @ [DQUOTE] @ comment a @ [DQUOTE] else [])
     @ (if and_quit a then '' and-quit'' else [])"

section \<open>A simulated device\<close>

text \<open>
  A device to run the methods against: it is in one of the two modes and may hold
  uncommitted changes. Leaving configuration mode with uncommitted changes makes it ask;
  \<^verbatim>\<open>yes\<close> then leaves. A commit command is answered with the marker of its variant.
\<close>

datatype mode = OPERATIONAL | CONFIG

record device =
  mode :: mode
  uncommitted :: bool

definition sim_reply :: "string \<Rightarrow> string" where
  "sim_reply cmd =
     (if prefix ''commit check'' cmd then ''configuration check succeeds''
      else if prefix ''commit confirmed'' cmd
      then ''commit confirmed will be automatically rolled back in 10 minutes''
      else if prefix ''commit'' cmd then ''commit complete''
      else [])"

definition sim_base :: "(device, unit) base_connection" where
  "sim_base =
     \<lparr>select_delay_factor = (\<lambda>self df. df),
      super_check_config_mode = (\<lambda>check_string self. (Inr (mode (chan self) = CONFIG), self)),
      super_config_mode =
        (\<lambda>cmd pat fl self.
           (Inr ''Entering configuration mode'', self\<lparr>chan := (chan self)\<lparr>mode := CONFIG\<rparr>\<rparr>)),
      super_exit_config_mode =
        (\<lambda>cmd pat self. (Inr [], self\<lparr>chan := (chan self)\<lparr>mode := OPERATIONAL\<rparr>\<rparr>)),
      send_command_timing =
        (\<lambda>cmd strip_prompt strip_command self.
           if cmd = ''yes''
           then (Inr ''Exiting configuration mode'',
                 self\<lparr>chan := \<lparr>mode = OPERATIONAL, uncommitted = False\<rparr>\<rparr>)
           else if uncommitted (chan self)
           then (Inr ''Exit with uncommitted changes? [yes,no] (yes) '', self)
           else (Inr ''Exiting configuration mode'',
                 self\<lparr>chan := (chan self)\<lparr>mode := OPERATIONAL\<rparr>\<rparr>)),
      send_command =
        (\<lambda>cmd expect_string strip_prompt strip_command df self. (Inr (sim_reply cmd), self)),
      re_escape = (\<lambda>s. s)\<rparr>"

text \<open>The same device with a commit that fails: the marker never comes.\<close>

definition sim_failing_base :: "(device, unit) base_connection" where
  "sim_failing_base =
     sim_base\<lparr>send_command :=
       (\<lambda>cmd expect_string strip_prompt strip_command df self.
          (Inr ''error: configuration check-out failed'', self))\<rparr>"

definition sim_connection :: "mode \<Rightarrow> bool \<Rightarrow> device connection" where
  "sim_connection m u =
     \<lparr>fast_cli = True, legacy_mode = False, base_prompt = ''user@router'',
      RESPONSE_RETURN = [LF], chan = \<lparr>mode = m, uncommitted = u\<rparr>\<rparr>"

definition sim_world :: "mode \<Rightarrow> bool \<Rightarrow> device world" where
  "sim_world m u = \<lparr>conn = sim_connection m u, calls = []\<rparr>"

section \<open>Facts about the string functions\<close>

lemma split_on_not_Nil: "split_on sep s \<noteq> []"
  by (induction sep s rule: split_on.induct) (auto split: list.splits)

lemma str_join_Cons_Cons: "str_join sep ((c # x) # xs) = c # str_join sep (x # xs)"
  by (cases xs) auto

lemma str_join_Nil_Cons: "ys \<noteq> [] \<Longrightarrow> str_join sep ([] # ys) = sep @ str_join sep ys"
  by (cases ys) auto

lemma split_on_sep_append: "sep \<noteq> [] \<Longrightarrow> split_on sep (sep @ t) = [] # split_on sep t"
  by (cases sep) auto

lemma str_join_split_on: "sep \<noteq> [] \<Longrightarrow> str_join sep (split_on sep s) = s"
proof (induction sep s rule: split_on.induct)
  case (1 sep)
  then show ?case by simp
next
  case (2 sep c cs)
  show ?case
  proof (cases "prefix sep (c # cs)")
    case True
    then obtain r where r: "c # cs = sep @ r" by (auto simp: prefix_def)
    then have d: "drop (length sep) (c # cs) = r" by simp
    from True 2 have "str_join sep (split_on sep (drop (length sep) (c # cs))) = drop (length sep) (c # cs)"
      by simp
    with d have IH: "str_join sep (split_on sep r) = r" by simp
    have "split_on sep (c # cs) = [] # split_on sep r"
      unfolding r using 2(3) by (rule split_on_sep_append)
    with IH r show ?thesis
      by (simp add: str_join_Nil_Cons split_on_not_Nil del: split_on.simps(2))
  next
    case False
    with 2 have IH: "str_join sep (split_on sep cs) = cs" by simp
    obtain x xs where xs: "split_on sep cs = x # xs"
      using split_on_not_Nil[of sep cs] by (cases "split_on sep cs") auto
    with False IH show ?thesis by (simp add: str_join_Cons_Cons)
  qed
qed

lemma str_join_snoc: "ls \<noteq> [] \<Longrightarrow> str_join sep (ls @ [l]) = str_join sep ls @ sep @ l"
  by (induction sep ls rule: str_join.induct) auto

lemma split_on_butlast:
  "sep \<noteq> [] \<Longrightarrow> butlast (split_on sep s) \<noteq> [] \<Longrightarrow>
   split_on sep (str_join sep (butlast (split_on sep s))) = butlast (split_on sep s)"
proof (induction sep s rule: split_on.induct)
  case (1 sep)
  then show ?case by simp
next
  case (2 sep c cs)
  show ?case
  proof (cases "prefix sep (c # cs)")
    case True
    let ?ys = "split_on sep (drop (length sep) (c # cs))"
    from True 2(3) have sp: "split_on sep (c # cs) = [] # ?ys" by simp
    have ne: "?ys \<noteq> []" by (rule split_on_not_Nil)
    show ?thesis
    proof (cases "butlast ?ys = []")
      case True
      with sp ne show ?thesis by (simp del: split_on.simps(2))
    next
      case False
      with 2(1)[OF _ 2(3)] True 2(3) have IH: "split_on sep (str_join sep (butlast ?ys)) = butlast ?ys"
        by simp
      from sp ne False 2(3) IH show ?thesis
        by (simp add: str_join_Nil_Cons split_on_sep_append del: split_on.simps(2))
    qed
  next
    case False
    obtain x xs where xs: "split_on sep cs = x # xs"
      using split_on_not_Nil[of sep cs] by (cases "split_on sep cs") auto
    with False have sp: "split_on sep (c # cs) = (c # x) # xs" by simp
    with 2(4) have xne: "xs \<noteq> []" by (auto simp del: split_on.simps(2) split: if_splits)
    then have bl: "butlast (x # xs) = x # butlast xs" by simp
    with xs have bne: "butlast (split_on sep cs) \<noteq> []" by simp
    from 2(2) False 2(3) bne have IH: "split_on sep (str_join sep (butlast (split_on sep cs))) = butlast (split_on sep cs)"
      by simp
    let ?t = "str_join sep (x # butlast xs)"
    have "cs = str_join sep (split_on sep cs)" using str_join_split_on[OF 2(3)] by simp
    also have "\<dots> = str_join sep (butlast (x # xs) @ [last (x # xs)])" using xs by simp
    also have "\<dots> = ?t @ sep @ last (x # xs)" unfolding bl by (rule str_join_snoc) simp
    finally have cs: "cs = ?t @ sep @ last (x # xs)" .
    have np: "\<not> prefix sep (c # ?t)"
    proof
      assume "prefix sep (c # ?t)"
      moreover have "prefix (c # ?t) (c # cs)" using cs by (metis Cons_prefix_Cons prefixI)
      ultimately have "prefix sep (c # cs)" by (rule prefix_order.trans)
      with False show False by simp
    qed
    have "split_on sep (str_join sep (butlast (split_on sep (c # cs)))) = split_on sep (c # ?t)"
      unfolding sp using xne by (simp add: str_join_Cons_Cons)
    also have "\<dots> = (c # x) # butlast xs" using np IH xs bl by simp
    finally show ?thesis unfolding sp using xne by simp
  qed
qed

lemma dot_star_then_iff:
  "dot_star_then suf s \<longleftrightarrow> (\<exists>m b. s = m @ suf @ b \<and> LF \<notin> set m)"
proof (induction suf s rule: dot_star_then.induct)
  case (1 suf)
  then show ?case by auto
next
  case (2 suf c cs)
  show ?case
  proof
    assume "dot_star_then suf (c # cs)"
    then consider "prefix suf (c # cs)" | "c \<noteq> LF" "dot_star_then suf cs" by auto
    then show "\<exists>m b. c # cs = m @ suf @ b \<and> LF \<notin> set m"
    proof cases
      case 1
      then obtain b where "c # cs = suf @ b" by (auto simp: prefix_def)
      then have "c # cs = [] @ suf @ b \<and> LF \<notin> set []" by simp
      then show ?thesis by blast
    next
      case 2
      with "2.IH" obtain m b where "cs = m @ suf @ b" "LF \<notin> set m" by auto
      with 2 have "c # cs = (c # m) @ suf @ b \<and> LF \<notin> set (c # m)" by auto
      then show ?thesis by blast
    qed
  next
    assume "\<exists>m b. c # cs = m @ suf @ b \<and> LF \<notin> set m"
    then obtain m b where mb: "c # cs = m @ suf @ b" "LF \<notin> set m" by blast
    show "dot_star_then suf (c # cs)"
    proof (cases m)
      case Nil
      with mb have "prefix suf (c # cs)" by (simp add: prefix_def)
      then show ?thesis by simp
    next
      case (Cons a m')
      with mb have "c = a" "cs = m' @ suf @ b" "LF \<notin> set m'" "c \<noteq> LF" by auto
      with "2.IH" show ?thesis by auto
    qed
  qed
qed

lemma re_search_iff:
  "re_search (pre, suf) s \<longleftrightarrow> (\<exists>a m b. s = a @ pre @ m @ suf @ b \<and> LF \<notin> set m)"
proof (induction "(pre, suf)" s rule: re_search.induct)
  case 1
  then show ?case by (auto simp: dot_star_then_iff)
next
  case (2 c cs)
  show ?case
  proof
    assume "re_search (pre, suf) (c # cs)"
    then consider "prefix pre (c # cs)" "dot_star_then suf (drop (length pre) (c # cs))"
      | "re_search (pre, suf) cs" by auto
    then show "\<exists>a m b. c # cs = a @ pre @ m @ suf @ b \<and> LF \<notin> set m"
    proof cases
      case 1
      then obtain r where r: "c # cs = pre @ r" by (auto simp: prefix_def)
      then have "drop (length pre) (c # cs) = r" by simp
      with 1 obtain m b where "r = m @ suf @ b" "LF \<notin> set m" by (auto simp: dot_star_then_iff)
      with r have "c # cs = [] @ pre @ m @ suf @ b \<and> LF \<notin> set m" by simp
      then show ?thesis by blast
    next
      case 2
      with "2.hyps" obtain a m b where "cs = a @ pre @ m @ suf @ b" "LF \<notin> set m" by auto
      then have "c # cs = (c # a) @ pre @ m @ suf @ b \<and> LF \<notin> set m" by simp
      then show ?thesis by blast
    qed
  next
    assume "\<exists>a m b. c # cs = a @ pre @ m @ suf @ b \<and> LF \<notin> set m"
    then obtain a m b where amb: "c # cs = a @ pre @ m @ suf @ b" "LF \<notin> set m" by blast
    show "re_search (pre, suf) (c # cs)"
    proof (cases a)
      case Nil
      with amb have eq: "c # cs = pre @ (m @ suf @ b)" by simp
      then have p: "prefix pre (c # cs)" by (simp add: prefix_def)
      from eq have "drop (length pre) (c # cs) = m @ suf @ b" by simp
      with amb(2) have "dot_star_then suf (drop (length pre) (c # cs))"
        unfolding dot_star_then_iff by blast
      with p show ?thesis by simp
    next
      case (Cons a0 a')
      with amb have "cs = a' @ pre @ m @ suf @ b" by simp
      with amb "2.hyps" show ?thesis by auto
    qed
  qed
qed

lemma str_contains_iff: "str_contains sub s \<longleftrightarrow> (\<exists>p q. s = p @ sub @ q)"
proof (induction sub s rule: str_contains.induct)
  case (1 sub)
  then show ?case by auto
next
  case (2 sub c cs)
  show ?case
  proof
    assume "str_contains sub (c # cs)"
    then consider "prefix sub (c # cs)" | "str_contains sub cs" by auto
    then show "\<exists>p q. c # cs = p @ sub @ q"
    proof cases
      case 1
      then obtain q where "c # cs = [] @ sub @ q" by (auto simp: prefix_def)
      then show ?thesis by blast
    next
      case 2
      with "2.IH" obtain p q where "cs = p @ sub @ q" by auto
      then have "c # cs = (c # p) @ sub @ q" by simp
      then show ?thesis by blast
    qed
  next
    assume "\<exists>p q. c # cs = p @ sub @ q"
    then obtain p q where pq: "c # cs = p @ sub @ q" by blast
    show "str_contains sub (c # cs)"
    proof (cases p)
      case Nil
      with pq have "prefix sub (c # cs)" by (simp add: prefix_def)
      then show ?thesis by simp
    next
      case (Cons a p')
      with pq have "cs = p' @ sub @ q" by simp
      with "2.IH" show ?thesis by auto
    qed
  qed
qed


section \<open>The response sanitizer\<close>

text \<open>
  What the line test means: one of the six opening literals occurs in the line, and its
  closing bracket occurs after it with no line feed in between.
\<close>

lemma matches_context_item_iff:
  "matches_context_item l \<longleftrightarrow>
     (\<exists>(pre, suf) \<in> set strings_to_strip. \<exists>a m b. l = a @ pre @ m @ suf @ b \<and> LF \<notin> set m)"
proof -
  have "re_search p l \<longleftrightarrow>
          (case p of (pre, suf) \<Rightarrow> \<exists>a m b. l = a @ pre @ m @ suf @ b \<and> LF \<notin> set m)" for p
    by (cases p) (simp add: re_search_iff)
  then show ?thesis
    unfolding matches_context_item_def list_ex_iff by simp
qed

lemma split_on_snoc: "split_on sep s = butlast (split_on sep s) @ [last (split_on sep s)]"
  by (simp add: split_on_not_Nil)

lemma strip_context_items_eq:
  assumes "RESPONSE_RETURN self \<noteq> []"
  shows "(strip_context_items self s :: 'e error + string) =
         Inr (if matches_context_item (last (split_on (RESPONSE_RETURN self) s))
              then str_join (RESPONSE_RETURN self) (butlast (split_on (RESPONSE_RETURN self) s))
              else s)"
proof -
  let ?xs = "split_on (RESPONSE_RETURN self) s"
  have "?xs \<noteq> []" by (rule split_on_not_Nil)
  then obtain l ls where r: "rev ?xs = l # ls" by (cases "rev ?xs") auto
  then have "last ?xs = l" by (metis last_rev list.sel(1) rev_rev_ident)
  with r assms show ?thesis
    by (simp add: strip_context_items_def str_split_def)
qed

text \<open>
  Claim C6. For every input and every non-empty line terminator, the input is the
  interior elements joined, then the terminator, then the final element (or the final
  element alone when there is no terminator in it). Only the final element is inspected:
  when it holds one of the six context shapes the result is the interior elements joined,
  that is the input cut before its last terminator, and splitting the result gives back
  exactly the interior elements; otherwise the result is the input.
\<close>

theorem strip_context_items_last_line_only:
  assumes "RESPONSE_RETURN self \<noteq> []"
  shows "let sep = RESPONSE_RETURN self;
             response_list = split_on sep s;
             interior = butlast response_list;
             last_line = last response_list
         in s = (if interior = [] then last_line else str_join sep interior @ sep @ last_line)
            \<and> (strip_context_items self s :: 'e error + string) =
                (if matches_context_item last_line then Inr (str_join sep interior) else Inr s)
            \<and> (interior \<noteq> [] \<longrightarrow> split_on sep (str_join sep interior) = interior)"
proof -
  let ?sep = "RESPONSE_RETURN self"
  let ?xs = "split_on ?sep s"
  have a: "s = (if butlast ?xs = [] then last ?xs else str_join ?sep (butlast ?xs) @ ?sep @ last ?xs)"
  proof (cases "butlast ?xs = []")
    case True
    then have "?xs = [last ?xs]" using split_on_snoc[of ?sep s] by simp
    then have "str_join ?sep ?xs = last ?xs" by (metis str_join.simps(2))
    with True assms show ?thesis by (simp add: str_join_split_on)
  next
    case False
    have "s = str_join ?sep (butlast ?xs @ [last ?xs])"
      using str_join_split_on[OF assms, of s] split_on_snoc[of ?sep s] by simp
    with False show ?thesis by (simp add: str_join_snoc)
  qed
  have b: "(strip_context_items self s :: 'e error + string) =
           (if matches_context_item (last ?xs) then Inr (str_join ?sep (butlast ?xs)) else Inr s)"
    by (simp add: strip_context_items_eq[OF assms])
  have c: "butlast ?xs \<noteq> [] \<longrightarrow> split_on ?sep (str_join ?sep (butlast ?xs)) = butlast ?xs"
    using split_on_butlast[OF assms] by blast
  from a b c show ?thesis unfolding Let_def by blast
qed

theorem strip_context_items_last_line_only_witness:
  "RESPONSE_RETURN (sim_connection OPERATIONAL False) \<noteq> []
   \<and> (strip_context_items (sim_connection OPERATIONAL False)
        (''show version'' @ [LF] @ ''{master:0}'') :: unit error + string) = Inr ''show version''
   \<and> split_on [LF] ''show version'' = [''show version'']"
proof -
  have h: "RESPONSE_RETURN (sim_connection OPERATIONAL False) \<noteq> []"
    by (simp add: sim_connection_def)
  have sep: "RESPONSE_RETURN (sim_connection OPERATIONAL False) = [LF]"
    by (simp add: sim_connection_def)
  have sp: "split_on [LF] (''show version'' @ [LF] @ ''{master:0}'') = [''show version'', ''{master:0}'']"
    by (simp add: LF_def)
  have m: "matches_context_item ''{master:0}''"
    by (simp add: matches_context_item_def strings_to_strip_def LF_def)
  from strip_context_items_last_line_only[OF h, of "''show version'' @ [LF] @ ''{master:0}''", where ?'e = unit]
  show ?thesis unfolding Let_def sep sp using m h by simp
qed

text \<open>
  Claim C5, as stated, fails: with a terminator at its end the input splits into three
  elements, the last of them empty, and the empty string holds no context shape.
\<close>

theorem strip_context_items_trailing_terminator_counterexample:
  "(strip_context_items (sim_connection OPERATIONAL False)
      (''set cli complete-on-space off'' @ [LF] @ ''[edit]'' @ [LF]) :: unit error + string)
   \<noteq> Inr (''set cli complete-on-space off'' @ [LF])"
  by (simp add: strip_context_items_def str_split_def sim_connection_def
      matches_context_item_def strings_to_strip_def LF_def)

text \<open>
  Claim C5, amended. The input that ends with a terminator is returned unchanged; the same
  input without the terminator at its end loses its \<^verbatim>\<open>[edit]\<close> line together with the
  terminator before it.
\<close>

theorem strip_context_items_edit_line:
  assumes "RESPONSE_RETURN self = [LF]"
  shows "(strip_context_items self (''set cli complete-on-space off'' @ [LF] @ ''[edit]'' @ [LF])
            :: 'e error + string)
         = Inr (''set cli complete-on-space off'' @ [LF] @ ''[edit]'' @ [LF])
       \<and> (strip_context_items self (''set cli complete-on-space off'' @ [LF] @ ''[edit]'')
            :: 'e error + string)
         = Inr ''set cli complete-on-space off''"
  using assms
  by (simp add: strip_context_items_def str_split_def
      matches_context_item_def strings_to_strip_def LF_def)

theorem strip_context_items_edit_line_witness:
  "RESPONSE_RETURN (sim_connection CONFIG False) = [LF]
   \<and> (strip_context_items (sim_connection CONFIG False)
         (''set cli complete-on-space off'' @ [LF] @ ''[edit]'' @ [LF]) :: unit error + string)
       = Inr (''set cli complete-on-space off'' @ [LF] @ ''[edit]'' @ [LF])
   \<and> (strip_context_items (sim_connection CONFIG False)
         (''set cli complete-on-space off'' @ [LF] @ ''[edit]'') :: unit error + string)
       = Inr ''set cli complete-on-space off''"
proof -
  have h: "RESPONSE_RETURN (sim_connection CONFIG False) = [LF]"
    by (simp add: sim_connection_def)
  from h strip_context_items_edit_line[OF h, where ?'e = unit] show ?thesis by simp
qed

section \<open>Commit: the arguments and the command string\<close>

text \<open>The definitions to unfold when a method is run against the simulated device.\<close>

lemmas sim_defs =
  sim_base_def sim_failing_base_def sim_world_def sim_connection_def sim_reply_def
  commit_expect_string_def commit_delay_factor_def

lemma truthy_on_optional_positive:
  "(case d of None \<Rightarrow> True | Some n \<Rightarrow> 0 < n) \<Longrightarrow> truthy d \<longleftrightarrow> d \<noteq> None"
  by (cases d) (simp_all add: truthy_def)

lemma commit_command_invalid:
  "spec_invalid_arguments a \<Longrightarrow>
   \<exists>msg. (commit_command a :: 'e error + string \<times> string) = Inl (ValueError msg)
         \<and> msg \<in> set invalid_commit_messages"
  by (auto simp: commit_command_def spec_invalid_arguments_def invalid_commit_messages_def
      Let_def)

lemma commit_command_valid:
  "\<not> spec_invalid_arguments a \<Longrightarrow>
   (commit_command a :: 'e error + string \<times> string) = Inr (spec_command_string a, spec_table_marker a)"
  by (auto simp: commit_command_def spec_invalid_arguments_def spec_command_string_def
      spec_table_command_def spec_table_marker_def truthy_def Let_def split: option.splits)

lemma commit_raise:
  "commit_command a = Inl e \<Longrightarrow> commit base a w = (Inl e, w)"
  by (simp add: commit_def raise_def)

lemma commit_config_mode_raises:
  fixes base :: "('d, 'e) base_connection"
  assumes "(commit_command a :: 'e error + string \<times> string) = Inr (cmd, marker)"
    and "super_config_mode base ''configure'' ''Entering configuration mode'' 0 (conn w) = (Inl e, c1)"
  shows "commit base a w =
         (Inl (Propagated e),
          \<lparr>conn = c1, calls = calls w @ [ConfigMode ''configure'' ''Entering configuration mode'' 0]\<rparr>)"
  using assms
  by (simp add: commit_def and_then_def juniper_config_mode_def call_super_def arg_or_def Let_def)

lemma commit_sends:
  fixes base :: "('d, 'e) base_connection"
  assumes "(commit_command a :: 'e error + string \<times> string) = Inr (cmd, marker)"
    and "super_config_mode base ''configure'' ''Entering configuration mode'' 0 (conn w) = (Inr out1, c1)"
    and "send_command base cmd (commit_expect_string base c1 a) False False
           (commit_delay_factor base (conn w) a) (c1\<lparr>fast_cli := False\<rparr>) = (r, c2)"
  shows "commit base a w =
         ((case r of
             Inl e \<Rightarrow> Inl (Propagated e)
           | Inr out2 \<Rightarrow>
               if str_contains marker (out1 @ out2) then Inr (out1 @ out2)
               else Inl (commit_failed (out1 @ out2))),
          \<lparr>conn = c2\<lparr>fast_cli := fast_cli c1\<rparr>,
           calls = calls w @ [ConfigMode ''configure'' ''Entering configuration mode'' 0,
                              SendCommand cmd (commit_expect_string base c1 a) False False
                                (commit_delay_factor base (conn w) a)]\<rparr>)"
  using assms
  by (simp add: commit_def and_then_def juniper_config_mode_def call_super_def arg_or_def
      try_finally_def assign_self_def raise_def return_def Let_def split: sum.splits)


lemma commit_failed_not_invalid: "\<not> is_InvalidCommitArguments (commit_failed output)"
  by (simp add: is_InvalidCommitArguments_def commit_failed_def invalid_commit_messages_def)

lemma propagated_not_invalid: "\<not> is_InvalidCommitArguments (Propagated e)"
  by (simp add: is_InvalidCommitArguments_def)

lemma commit_valid_not_invalid_error:
  fixes base :: "('d, 'e) base_connection"
  assumes "\<not> spec_invalid_arguments a"
  shows "\<not> raises is_InvalidCommitArguments (fst (commit base a w))"
proof -
  let ?cfg = "super_config_mode base ''configure'' ''Entering configuration mode'' 0 (conn w)"
  have cc: "(commit_command a :: 'e error + string \<times> string) = Inr (spec_command_string a, spec_table_marker a)"
    using assms by (rule commit_command_valid)
  obtain r1 c1 where cfg: "?cfg = (r1, c1)" by (cases ?cfg)
  show ?thesis
  proof (cases r1)
    case (Inl e)
    with cfg commit_config_mode_raises[OF cc, of base w e c1] show ?thesis
      by (simp add: raises_def propagated_not_invalid)
  next
    case (Inr out1)
    obtain r c2 where sc: "send_command base (spec_command_string a) (commit_expect_string base c1 a)
        False False (commit_delay_factor base (conn w) a) (c1\<lparr>fast_cli := False\<rparr>) = (r, c2)"
      by (cases "send_command base (spec_command_string a) (commit_expect_string base c1 a)
        False False (commit_delay_factor base (conn w) a) (c1\<lparr>fast_cli := False\<rparr>)")
    from Inr cfg have "?cfg = (Inr out1, c1)" by simp
    from commit_sends[OF cc this sc] show ?thesis
      by (cases r) (simp_all add: raises_def propagated_not_invalid commit_failed_not_invalid)
  qed
qed

text \<open>
  Claim C1. \<^verbatim>\<open>commit\<close> ends with one of the three \<open>ValueError\<close>s of the argument
  checks exactly when \<open>check\<close> comes with \<open>confirm\<close>, a \<open>confirm_delay\<close> or a non-empty
  comment, or a \<open>confirm_delay\<close> comes without \<open>confirm\<close>, or the comment holds a double
  quote. In each of these cases the object and the record of calls are left as they were:
  the exception comes before any call that could write to the channel.
\<close>

theorem commit_invalid_arguments:
  fixes base :: "('d, 'e) base_connection"
  shows "(raises is_InvalidCommitArguments (fst (commit base a w)) \<longleftrightarrow> spec_invalid_arguments a)
         \<and> (spec_invalid_arguments a \<longrightarrow> snd (commit base a w) = w)"
proof (cases "spec_invalid_arguments a")
  case True
  then obtain msg where m: "(commit_command a :: 'e error + string \<times> string) = Inl (ValueError msg)"
    "msg \<in> set invalid_commit_messages"
    using commit_command_invalid[of a, where ?'e = 'e] by blast
  from commit_raise[OF m(1), of base w] m(2) True show ?thesis
    by (simp add: raises_def is_InvalidCommitArguments_def)
next
  case False
  with commit_valid_not_invalid_error[OF False, of base w] show ?thesis by simp
qed

theorem commit_invalid_arguments_witness:
  "spec_invalid_arguments
     \<lparr>confirm = True, confirm_delay = None, check = True, comment = [], and_quit = False,
      delay_factor = 1\<rparr>
   \<and> raises is_InvalidCommitArguments
       (fst (commit sim_base
          \<lparr>confirm = True, confirm_delay = None, check = True, comment = [], and_quit = False,
           delay_factor = 1\<rparr> (sim_world CONFIG True)))
   \<and> snd (commit sim_base
          \<lparr>confirm = True, confirm_delay = None, check = True, comment = [], and_quit = False,
           delay_factor = 1\<rparr> (sim_world CONFIG True)) = sim_world CONFIG True"
proof -
  let ?a = "\<lparr>confirm = True, confirm_delay = None, check = True, comment = [], and_quit = False,
      delay_factor = 1\<rparr>"
  have h: "spec_invalid_arguments ?a" by (simp add: spec_invalid_arguments_def)
  from h commit_invalid_arguments[of sim_base ?a "sim_world CONFIG True"] show ?thesis by simp
qed

text \<open>
  Claim C2. For arguments that pass the checks, the command string and the marker
  \<^verbatim>\<open>commit\<close> builds are those of the specification's table read from the top, with
  the quoted comment and then \<^verbatim>\<open>and-quit\<close> appended; and once configuration mode is
  entered, that command string is what \<^verbatim>\<open>commit\<close> sends, once.
\<close>

theorem commit_command_first_match:
  fixes base :: "('d, 'e) base_connection"
  assumes "\<not> spec_invalid_arguments a"
  shows "(commit_command a :: 'e error + string \<times> string) = Inr (spec_command_string a, spec_table_marker a)
         \<and> (\<forall>out1 c1.
               super_config_mode base ''configure'' ''Entering configuration mode'' 0 (conn w)
                 = (Inr out1, c1) \<longrightarrow>
               calls (snd (commit base a w)) =
                 calls w @ [ConfigMode ''configure'' ''Entering configuration mode'' 0,
                            SendCommand (spec_command_string a) (commit_expect_string base c1 a) False False
                              (commit_delay_factor base (conn w) a)])"
proof -
  have cc: "(commit_command a :: 'e error + string \<times> string) = Inr (spec_command_string a, spec_table_marker a)"
    using assms by (rule commit_command_valid)
  have "calls (snd (commit base a w)) =
          calls w @ [ConfigMode ''configure'' ''Entering configuration mode'' 0,
                     SendCommand (spec_command_string a) (commit_expect_string base c1 a) False False
                       (commit_delay_factor base (conn w) a)]"
    if cfg: "super_config_mode base ''configure'' ''Entering configuration mode'' 0 (conn w)
               = (Inr out1, c1)" for out1 c1
  proof -
    obtain r c2 where sc: "send_command base (spec_command_string a) (commit_expect_string base c1 a)
        False False (commit_delay_factor base (conn w) a) (c1\<lparr>fast_cli := False\<rparr>) = (r, c2)"
      by (cases "send_command base (spec_command_string a) (commit_expect_string base c1 a)
        False False (commit_delay_factor base (conn w) a) (c1\<lparr>fast_cli := False\<rparr>)")
    from commit_sends[OF cc cfg sc] show ?thesis by simp
  qed
  with cc show ?thesis by blast
qed


theorem commit_command_first_match_witness:
  "\<not> spec_invalid_arguments
       \<lparr>confirm = True, confirm_delay = Some 5, check = False, comment = ''nightly'',
        and_quit = True, delay_factor = 1\<rparr>
   \<and> (commit_command
        \<lparr>confirm = True, confirm_delay = Some 5, check = False, comment = ''nightly'',
         and_quit = True, delay_factor = 1\<rparr> :: unit error + string \<times> string)
       = Inr (''commit confirmed 5 comment '' @ [DQUOTE] @ ''nightly'' @ [DQUOTE] @ '' and-quit'',
              ''commit confirmed will be automatically rolled back in'')
   \<and> calls (snd (commit sim_base
        \<lparr>confirm = True, confirm_delay = Some 5, check = False, comment = ''nightly'',
         and_quit = True, delay_factor = 1\<rparr> (sim_world OPERATIONAL False)))
       = [ConfigMode ''configure'' ''Entering configuration mode'' 0,
          SendCommand (''commit confirmed 5 comment '' @ [DQUOTE] @ ''nightly'' @ [DQUOTE] @ '' and-quit'')
            (Some ''user@router'') False False 1]"
proof -
  let ?a = "\<lparr>confirm = True, confirm_delay = Some 5, check = False, comment = ''nightly'',
        and_quit = True, delay_factor = 1\<rparr>"
  let ?w = "sim_world OPERATIONAL False"
  have h: "\<not> spec_invalid_arguments ?a"
    by (simp add: spec_invalid_arguments_def truthy_def DQUOTE_def)
  have f: "spec_command_string ?a
           = ''commit confirmed 5 comment '' @ [DQUOTE] @ ''nightly'' @ [DQUOTE] @ '' and-quit''"
    by (simp add: spec_command_string_def spec_table_command_def truthy_def str_int_def digit_char_def)
  have m: "spec_table_marker ?a = ''commit confirmed will be automatically rolled back in''"
    by (simp add: spec_table_marker_def)
  have cfg: "super_config_mode sim_base ''configure'' ''Entering configuration mode'' 0 (conn ?w)
             = (Inr ''Entering configuration mode'',
                (sim_connection OPERATIONAL False)\<lparr>chan := \<lparr>mode = CONFIG, uncommitted = False\<rparr>\<rparr>)"
    by (simp add: sim_defs)
  have e: "commit_expect_string sim_base
             ((sim_connection OPERATIONAL False)\<lparr>chan := \<lparr>mode = CONFIG, uncommitted = False\<rparr>\<rparr>) ?a
           = Some ''user@router''"
    by (simp add: sim_defs)
  have d: "commit_delay_factor sim_base (conn ?w) ?a = 1"
    by (simp add: sim_defs)
  have c0: "calls ?w = []" by (simp add: sim_defs)
  from commit_command_first_match[OF h, of sim_base ?w] cfg
  show ?thesis unfolding f m using h by (simp add: e d c0)
qed

section \<open>Commit: the marker\<close>

text \<open>
  Claim C3. When the arguments pass the checks, configuration mode is entered and the
  command is sent and answered, \<^verbatim>\<open>commit\<close> returns the collected output if the marker
  of the variant occurs in it, and otherwise raises the \<open>ValueError\<close> whose message ends
  with the whole collected output.
\<close>

theorem commit_marker_postcondition:
  fixes base :: "('d, 'e) base_connection"
  assumes "\<not> spec_invalid_arguments a"
    and "super_config_mode base ''configure'' ''Entering configuration mode'' 0 (conn w)
           = (Inr out1, c1)"
    and "send_command base (spec_command_string a) (commit_expect_string base c1 a) False False
           (commit_delay_factor base (conn w) a) (c1\<lparr>fast_cli := False\<rparr>) = (Inr out2, c2)"
  shows "fst (commit base a w) =
           (if str_contains (spec_table_marker a) (out1 @ out2)
            then Inr (out1 @ out2)
            else Inl (ValueError (''Commit failed with the following errors:'' @ [LF, LF]
                                  @ out1 @ out2)))"
proof -
  have cc: "(commit_command a :: 'e error + string \<times> string) = Inr (spec_command_string a, spec_table_marker a)"
    using assms(1) by (rule commit_command_valid)
  from commit_sends[OF cc assms(2) assms(3)] show ?thesis
    by (simp add: commit_failed_def)
qed

theorem commit_marker_postcondition_witness:
  "\<not> spec_invalid_arguments
       \<lparr>confirm = False, confirm_delay = None, check = False, comment = [],
        and_quit = False, delay_factor = 1\<rparr>
   \<and> fst (commit sim_failing_base
        \<lparr>confirm = False, confirm_delay = None, check = False, comment = [],
         and_quit = False, delay_factor = 1\<rparr> (sim_world CONFIG True))
       = Inl (ValueError (''Commit failed with the following errors:'' @ [LF, LF]
                @ ''Entering configuration mode'' @ ''error: configuration check-out failed''))"
proof -
  let ?a = "\<lparr>confirm = False, confirm_delay = None, check = False, comment = [],
        and_quit = False, delay_factor = 1\<rparr>"
  let ?w = "sim_world CONFIG True"
  let ?c1 = "(sim_connection CONFIG True)\<lparr>chan := \<lparr>mode = CONFIG, uncommitted = True\<rparr>\<rparr>"
  have h: "\<not> spec_invalid_arguments ?a"
    by (simp add: spec_invalid_arguments_def truthy_def)
  have cfg: "super_config_mode sim_failing_base ''configure'' ''Entering configuration mode'' 0 (conn ?w)
             = (Inr ''Entering configuration mode'', ?c1)"
    by (simp add: sim_defs)
  have sc: "send_command sim_failing_base (spec_command_string ?a) (commit_expect_string sim_failing_base ?c1 ?a)
              False False (commit_delay_factor sim_failing_base (conn ?w) ?a) (?c1\<lparr>fast_cli := False\<rparr>)
            = (Inr ''error: configuration check-out failed'', ?c1\<lparr>fast_cli := False\<rparr>)"
    by (simp add: sim_defs)
  have m: "spec_table_marker ?a = ''commit complete''" by (simp add: spec_table_marker_def)
  have n: "\<not> str_contains ''commit complete''
              (''Entering configuration mode'' @ ''error: configuration check-out failed'')"
    by simp
  from commit_marker_postcondition[OF h cfg sc] h show ?thesis
    unfolding m using n by simp
qed


section \<open>Commit: the fast-mode flag\<close>

text \<open>
  Claim C7. \<^verbatim>\<open>send_command\<close> only ever sees the object with \<open>fast_cli\<close> off:
  \<^verbatim>\<open>commit\<close> behaves the same when \<^verbatim>\<open>send_command\<close> is made to look at its object
  with the flag cleared. However \<^verbatim>\<open>commit\<close> ends (the arguments rejected, entering
  configuration mode failed, the send raised, the marker missing, or success), the flag
  is afterwards what it was before the call, given that entering configuration mode, a
  method of the superclass, leaves the flag alone.
\<close>

theorem commit_fast_cli:
  fixes base :: "('d, 'e) base_connection"
  assumes "fast_cli (snd (super_config_mode base ''configure'' ''Entering configuration mode'' 0 (conn w)))
           = fast_cli (conn w)"
  shows "fast_cli (conn (snd (commit base a w))) = fast_cli (conn w)
         \<and> commit base a w =
             commit (base\<lparr>send_command :=
                       (\<lambda>cmd expect_string strip_prompt strip_command df self.
                          send_command base cmd expect_string strip_prompt strip_command df
                            (self\<lparr>fast_cli := False\<rparr>))\<rparr>) a w"
proof -
  let ?base' = "base\<lparr>send_command :=
                       (\<lambda>cmd expect_string strip_prompt strip_command df self.
                          send_command base cmd expect_string strip_prompt strip_command df
                            (self\<lparr>fast_cli := False\<rparr>))\<rparr>"
  let ?cfg = "super_config_mode base ''configure'' ''Entering configuration mode'' 0 (conn w)"
  show ?thesis
  proof (cases "commit_command a :: 'e error + string \<times> string")
    case (Inl e)
    from commit_raise[OF Inl, of base w] commit_raise[OF Inl, of ?base' w]
    show ?thesis by simp
  next
    case (Inr p)
    obtain cmd marker where p: "p = (cmd, marker)" by (cases p)
    with Inr have cc: "(commit_command a :: 'e error + string \<times> string) = Inr (cmd, marker)" by simp
    obtain r1 c1 where cfg: "?cfg = (r1, c1)" by (cases ?cfg)
    with assms have f1: "fast_cli c1 = fast_cli (conn w)" by simp
    have cfg': "super_config_mode ?base' ''configure'' ''Entering configuration mode'' 0 (conn w) = (r1, c1)"
      using cfg by simp
    show ?thesis
    proof (cases r1)
      case (Inl e)
      with cfg cfg' have a: "?cfg = (Inl e, c1)"
        and b: "super_config_mode ?base' ''configure'' ''Entering configuration mode'' 0 (conn w) = (Inl e, c1)"
        by simp_all
      from commit_config_mode_raises[OF cc a] commit_config_mode_raises[OF cc b] f1
      show ?thesis by simp
    next
      case (Inr out1)
      with cfg cfg' have a: "?cfg = (Inr out1, c1)"
        and b: "super_config_mode ?base' ''configure'' ''Entering configuration mode'' 0 (conn w) = (Inr out1, c1)"
        by simp_all
      obtain r c2 where sc: "send_command base cmd (commit_expect_string base c1 a)
          False False (commit_delay_factor base (conn w) a) (c1\<lparr>fast_cli := False\<rparr>) = (r, c2)"
        by (cases "send_command base cmd (commit_expect_string base c1 a)
          False False (commit_delay_factor base (conn w) a) (c1\<lparr>fast_cli := False\<rparr>)")
      have e: "commit_expect_string ?base' c1 a = commit_expect_string base c1 a"
        by (simp add: commit_expect_string_def)
      have d: "commit_delay_factor ?base' (conn w) a = commit_delay_factor base (conn w) a"
        by (simp add: commit_delay_factor_def)
      have sc': "send_command ?base' cmd (commit_expect_string ?base' c1 a)
          False False (commit_delay_factor ?base' (conn w) a) (c1\<lparr>fast_cli := False\<rparr>) = (r, c2)"
        unfolding e d using sc by simp
      from commit_sends[OF cc a sc] commit_sends[OF cc b sc'] f1
      show ?thesis unfolding e d by simp
    qed
  qed
qed

theorem commit_fast_cli_witness:
  "fast_cli (snd (super_config_mode sim_failing_base ''configure'' ''Entering configuration mode'' 0
                    (conn (sim_world OPERATIONAL False))))
     = fast_cli (conn (sim_world OPERATIONAL False))
   \<and> fast_cli (conn (sim_world OPERATIONAL False))
   \<and> fast_cli (conn (snd (commit sim_failing_base
        \<lparr>confirm = False, confirm_delay = None, check = False, comment = [],
         and_quit = False, delay_factor = 1\<rparr> (sim_world OPERATIONAL False))))"
proof -
  let ?w = "sim_world OPERATIONAL False"
  have h: "fast_cli (snd (super_config_mode sim_failing_base ''configure''
                ''Entering configuration mode'' 0 (conn ?w))) = fast_cli (conn ?w)"
    by (simp add: sim_defs)
  have t: "fast_cli (conn ?w)" by (simp add: sim_defs)
  from commit_fast_cli[OF h, THEN conjunct1] h t show ?thesis by simp
qed

section \<open>Commit: check with and-quit\<close>

text \<open>
  Claim C8. With \<open>check\<close> and \<open>and_quit\<close> set and nothing else supplied, \<^verbatim>\<open>commit\<close>
  does not raise the exception of the argument checks; the command string it builds and
  sends is \<^verbatim>\<open>commit check and-quit\<close>, and the marker it looks for is
  \<^verbatim>\<open>configuration check succeeds\<close>.
\<close>

theorem commit_check_and_quit:
  fixes base :: "('d, 'e) base_connection"
  shows "(commit_command
            \<lparr>confirm = False, confirm_delay = None, check = True, comment = [],
             and_quit = True, delay_factor = df\<rparr> :: 'e error + string \<times> string)
           = Inr (''commit check and-quit'', ''configuration check succeeds'')
         \<and> \<not> raises is_InvalidCommitArguments
               (fst (commit base
                  \<lparr>confirm = False, confirm_delay = None, check = True, comment = [],
                   and_quit = True, delay_factor = df\<rparr> w))
         \<and> (\<forall>out1 c1 out2 c2 d.
               d = commit_delay_factor base (conn w)
                     \<lparr>confirm = False, confirm_delay = None, check = True, comment = [],
                      and_quit = True, delay_factor = df\<rparr> \<longrightarrow>
               super_config_mode base ''configure'' ''Entering configuration mode'' 0 (conn w)
                 = (Inr out1, c1) \<longrightarrow>
               send_command base ''commit check and-quit'' (Some (re_escape base (base_prompt c1)))
                 False False d (c1\<lparr>fast_cli := False\<rparr>) = (Inr out2, c2) \<longrightarrow>
               calls (snd (commit base
                  \<lparr>confirm = False, confirm_delay = None, check = True, comment = [],
                   and_quit = True, delay_factor = df\<rparr> w))
                 = calls w @ [ConfigMode ''configure'' ''Entering configuration mode'' 0,
                              SendCommand ''commit check and-quit''
                                (Some (re_escape base (base_prompt c1))) False False d]
               \<and> fst (commit base
                  \<lparr>confirm = False, confirm_delay = None, check = True, comment = [],
                   and_quit = True, delay_factor = df\<rparr> w)
                 = (if str_contains ''configuration check succeeds'' (out1 @ out2)
                    then Inr (out1 @ out2)
                    else Inl (commit_failed (out1 @ out2))))"
proof -
  let ?a = "\<lparr>confirm = False, confirm_delay = None, check = True, comment = [],
             and_quit = True, delay_factor = df\<rparr>"
  have cc: "(commit_command ?a :: 'e error + string \<times> string)
            = Inr (''commit check and-quit'', ''configuration check succeeds'')"
    by (simp add: commit_command_def truthy_def)
  have v: "\<not> spec_invalid_arguments ?a"
    by (simp add: spec_invalid_arguments_def truthy_def)
  have e: "commit_expect_string base c1 ?a = Some (re_escape base (base_prompt c1))" for c1
    by (simp add: commit_expect_string_def)
  have run: "calls (snd (commit base ?a w))
                 = calls w @ [ConfigMode ''configure'' ''Entering configuration mode'' 0,
                              SendCommand ''commit check and-quit''
                                (Some (re_escape base (base_prompt c1))) False False d]
               \<and> fst (commit base ?a w)
                 = (if str_contains ''configuration check succeeds'' (out1 @ out2)
                    then Inr (out1 @ out2)
                    else Inl (commit_failed (out1 @ out2)))"
    if d: "d = commit_delay_factor base (conn w) ?a"
      and cfg: "super_config_mode base ''configure'' ''Entering configuration mode'' 0 (conn w)
                 = (Inr out1, c1)"
      and sc: "send_command base ''commit check and-quit'' (Some (re_escape base (base_prompt c1)))
                 False False d (c1\<lparr>fast_cli := False\<rparr>) = (Inr out2, c2)"
    for out1 c1 out2 c2 d
  proof -
    from sc have sc': "send_command base ''commit check and-quit'' (commit_expect_string base c1 ?a)
                 False False (commit_delay_factor base (conn w) ?a) (c1\<lparr>fast_cli := False\<rparr>)
                 = (Inr out2, c2)"
      unfolding e d .
    from commit_sends[OF cc cfg sc'] show ?thesis unfolding e d by simp
  qed
  from cc commit_valid_not_invalid_error[OF v, of base w] run show ?thesis by blast
qed

theorem commit_check_and_quit_witness:
  "super_config_mode sim_base ''configure'' ''Entering configuration mode'' 0
       (conn (sim_world OPERATIONAL False))
     = (Inr ''Entering configuration mode'',
        (sim_connection OPERATIONAL False)\<lparr>chan := \<lparr>mode = CONFIG, uncommitted = False\<rparr>\<rparr>)
   \<and> calls (snd (commit sim_base
        \<lparr>confirm = False, confirm_delay = None, check = True, comment = [],
         and_quit = True, delay_factor = 1\<rparr> (sim_world OPERATIONAL False)))
       = [ConfigMode ''configure'' ''Entering configuration mode'' 0,
          SendCommand ''commit check and-quit'' (Some ''user@router'') False False 1]
   \<and> fst (commit sim_base
        \<lparr>confirm = False, confirm_delay = None, check = True, comment = [],
         and_quit = True, delay_factor = 1\<rparr> (sim_world OPERATIONAL False))
       = Inr (''Entering configuration mode'' @ ''configuration check succeeds'')"
proof -
  let ?a = "\<lparr>confirm = False, confirm_delay = None, check = True, comment = [],
         and_quit = True, delay_factor = 1\<rparr>"
  let ?w = "sim_world OPERATIONAL False"
  let ?c1 = "(sim_connection OPERATIONAL False)\<lparr>chan := \<lparr>mode = CONFIG, uncommitted = False\<rparr>\<rparr>"
  have d: "1 = commit_delay_factor sim_base (conn ?w) ?a" by (simp add: sim_defs)
  have cfg: "super_config_mode sim_base ''configure'' ''Entering configuration mode'' 0 (conn ?w)
             = (Inr ''Entering configuration mode'', ?c1)"
    by (simp add: sim_defs)
  have sc: "send_command sim_base ''commit check and-quit'' (Some (re_escape sim_base (base_prompt ?c1)))
              False False 1 (?c1\<lparr>fast_cli := False\<rparr>)
            = (Inr ''configuration check succeeds'', ?c1\<lparr>fast_cli := False\<rparr>)"
    by (simp add: sim_defs)
  have bp: "re_escape sim_base (base_prompt ?c1) = ''user@router''" by (simp add: sim_defs)
  have c0: "calls ?w = []" by (simp add: sim_defs)
  have y: "str_contains ''configuration check succeeds''
             (''Entering configuration mode'' @ ''configuration check succeeds'')"
    by simp
  from commit_check_and_quit[of 1 sim_base ?w] d cfg sc
  have "calls (snd (commit sim_base ?a ?w))
          = calls ?w @ [ConfigMode ''configure'' ''Entering configuration mode'' 0,
                        SendCommand ''commit check and-quit''
                          (Some (re_escape sim_base (base_prompt ?c1))) False False 1]
        \<and> fst (commit sim_base ?a ?w)
          = (if str_contains ''configuration check succeeds''
                  (''Entering configuration mode'' @ ''configuration check succeeds'')
             then Inr (''Entering configuration mode'' @ ''configuration check succeeds'')
             else Inl (commit_failed (''Entering configuration mode'' @ ''configuration check succeeds'')))"
    by blast
  with cfg y show ?thesis unfolding bp c0 by simp
qed


section \<open>Leaving configuration mode\<close>

text \<open>
  Keyword parameters left out take their defaults.
\<close>

lemma arg_or_simps: "arg_or None dflt = dflt" "arg_or (Some v) dflt = v"
  by (simp_all add: arg_or_def)

text \<open>
  Claim C4. In configuration mode, and with no exception from the superclass,
  \<^verbatim>\<open>exit_config_mode\<close> checks the mode, sends the exit command once, sends \<^verbatim>\<open>yes\<close>
  once more exactly when the answer holds the prompt about uncommitted changes, checks
  the mode again, and raises \<open>ValueError\<close> exactly when that second check still reports
  configuration mode; otherwise it returns the answers collected.
\<close>

theorem exit_config_mode_protocol:
  fixes base :: "('d, 'e) base_connection"
  assumes "exit_command = arg_or exit_config ''exit configuration-mode''"
    and "super_check_config_mode base '']'' (conn w) = (Inr True, c1)"
    and "send_command_timing base exit_command False False c1 = (Inr out1, c2)"
    and "str_contains ''Exit with uncommitted changes?'' out1 \<Longrightarrow>
           send_command_timing base ''yes'' False False c2 = (Inr out2, c3)"
    and "\<not> str_contains ''Exit with uncommitted changes?'' out1 \<Longrightarrow> out2 = [] \<and> c3 = c2"
    and "super_check_config_mode base '']'' c3 = (Inr still_in_config, c4)"
  shows "juniper_exit_config_mode base exit_config w =
           ((if still_in_config then Inl (ValueError ''Failed to exit configuration mode'')
             else Inr (out1 @ out2)),
            \<lparr>conn = c4,
             calls = calls w
               @ [CheckConfigMode '']'', SendCommandTiming exit_command False False]
               @ (if str_contains ''Exit with uncommitted changes?'' out1
                  then [SendCommandTiming ''yes'' False False] else [])
               @ [CheckConfigMode '']'']\<rparr>)"
proof (cases "str_contains ''Exit with uncommitted changes?'' out1")
  case True
  with assms(4) have y: "send_command_timing base ''yes'' False False c2 = (Inr out2, c3)" by simp
  from True assms(1,2,3,6) y show ?thesis
    by (simp add: juniper_exit_config_mode_def juniper_check_config_mode_def and_then_def
        call_super_def return_def raise_def Let_def arg_or_simps del: str_contains.simps)
next
  case False
  with assms(5) have n: "out2 = []" "c3 = c2" by simp_all
  from False assms(1,2,3,6) n show ?thesis
    by (simp add: juniper_exit_config_mode_def juniper_check_config_mode_def and_then_def
        call_super_def return_def raise_def Let_def arg_or_simps del: str_contains.simps)
qed

theorem exit_config_mode_protocol_witness:
  "juniper_exit_config_mode sim_base None (sim_world CONFIG True) =
     (Inr (''Exit with uncommitted changes? [yes,no] (yes) '' @ ''Exiting configuration mode''),
      \<lparr>conn = sim_connection OPERATIONAL False,
       calls = [CheckConfigMode '']'',
                SendCommandTiming ''exit configuration-mode'' False False,
                SendCommandTiming ''yes'' False False,
                CheckConfigMode '']'']\<rparr>)"
proof -
  let ?w = "sim_world CONFIG True"
  let ?c = "sim_connection CONFIG True"
  let ?c' = "sim_connection OPERATIONAL False"
  let ?q = "''Exit with uncommitted changes? [yes,no] (yes) ''"
  have a1: "''exit configuration-mode'' = arg_or None ''exit configuration-mode''"
    by (simp add: arg_or_def)
  have a2: "super_check_config_mode sim_base '']'' (conn ?w) = (Inr True, ?c)"
    by (simp add: sim_defs)
  have a3: "send_command_timing sim_base ''exit configuration-mode'' False False ?c = (Inr ?q, ?c)"
    by (simp add: sim_defs)
  have q: "str_contains ''Exit with uncommitted changes?'' ?q" by simp
  have a4: "send_command_timing sim_base ''yes'' False False ?c
              = (Inr ''Exiting configuration mode'', ?c')"
    by (simp add: sim_defs)
  have a5: "\<not> str_contains ''Exit with uncommitted changes?'' ?q \<Longrightarrow>
              ''Exiting configuration mode'' = [] \<and> ?c' = ?c"
    using q by simp
  have a6: "super_check_config_mode sim_base '']'' ?c' = (Inr False, ?c')"
    by (simp add: sim_defs)
  have c0: "calls ?w = []" by (simp add: sim_defs)
  from exit_config_mode_protocol[OF a1 a2 a3 a4 a5 a6] q show ?thesis
    unfolding c0 by simp
qed

text \<open>
  Claim C10, as stated, fails. \<^verbatim>\<open>exit_config_mode\<close> learns the mode by calling
  \<^verbatim>\<open>check_config_mode\<close>, a call that reaches the channel. Against the simulated device
  in operational mode, whose mode check changes nothing of the object, the record of
  calls is empty before and holds the mode check afterwards, so the world is not left as
  it was.
\<close>

theorem exit_config_mode_mode_check_counterexample:
  "calls (sim_world OPERATIONAL False) = []
   \<and> calls (snd (juniper_exit_config_mode sim_base None (sim_world OPERATIONAL False)))
       = [CheckConfigMode '']'']
   \<and> snd (juniper_exit_config_mode sim_base None (sim_world OPERATIONAL False))
       \<noteq> sim_world OPERATIONAL False"
  by (simp add: juniper_exit_config_mode_def juniper_check_config_mode_def and_then_def
      call_super_def return_def arg_or_def Let_def sim_base_def sim_world_def sim_connection_def)

text \<open>
  Claim C10, amended. When the mode check that \<^verbatim>\<open>exit_config_mode\<close> makes first reports
  that the session is not in configuration mode, the method makes no call besides that
  one mode check: it sends no command, assigns no field, so that the object is exactly as
  the mode check left it, and returns the empty string and raises nothing.
\<close>

theorem exit_config_mode_not_in_config:
  fixes base :: "('d, 'e) base_connection"
  assumes "super_check_config_mode base '']'' (conn w) = (Inr False, c1)"
  shows "juniper_exit_config_mode base exit_config w =
           (Inr [], \<lparr>conn = c1, calls = calls w @ [CheckConfigMode '']'']\<rparr>)"
  using assms
  by (simp add: juniper_exit_config_mode_def juniper_check_config_mode_def and_then_def
      call_super_def return_def arg_or_def Let_def)

theorem exit_config_mode_not_in_config_witness:
  "super_check_config_mode sim_base '']'' (conn (sim_world OPERATIONAL False))
     = (Inr False, conn (sim_world OPERATIONAL False))
   \<and> juniper_exit_config_mode sim_base None (sim_world OPERATIONAL False)
     = (Inr [], \<lparr>conn = conn (sim_world OPERATIONAL False), calls = [CheckConfigMode '']'']\<rparr>)"
proof -
  let ?w = "sim_world OPERATIONAL False"
  have h: "super_check_config_mode sim_base '']'' (conn ?w) = (Inr False, conn ?w)"
    by (simp add: sim_defs)
  have c0: "calls ?w = []" by (simp add: sim_defs)
  from exit_config_mode_not_in_config[OF h, of None] h show ?thesis
    unfolding c0 by simp
qed

section \<open>HP Comware: the enable tier is the configuration tier\<close>

text \<open>
  Claim C9. On HP Comware each operation of the enable tier is the matching operation of
  configuration mode: \<^verbatim>\<open>enable\<close> is \<^verbatim>\<open>config_mode\<close> with \<^verbatim>\<open>system-view\<close>,
  \<^verbatim>\<open>check_enable_mode\<close> is \<^verbatim>\<open>check_config_mode\<close> with the check string \<^verbatim>\<open>]\<close>,
  \<^verbatim>\<open>exit_enable_mode\<close> is \<^verbatim>\<open>exit_config_mode\<close> with \<^verbatim>\<open>return\<close>: same result, same
  object afterwards, same call into the superclass.
\<close>

theorem hp_comware_enable_tier:
  fixes base :: "('d, 'e) base_connection"
  shows "enable base None = hp_comware_config_mode base (Some ''system-view'') None None
         \<and> enable base None = hp_comware_config_mode base None None None
         \<and> enable base (Some cmd) = hp_comware_config_mode base (Some cmd) None None
         \<and> check_enable_mode base None = hp_comware_check_config_mode base (Some '']'')
         \<and> check_enable_mode base None = hp_comware_check_config_mode base None
         \<and> check_enable_mode base (Some check_string)
             = hp_comware_check_config_mode base (Some check_string)
         \<and> exit_enable_mode base None = hp_comware_exit_config_mode base (Some ''return'') None
         \<and> exit_enable_mode base None = hp_comware_exit_config_mode base None None
         \<and> exit_enable_mode base (Some exit_command)
             = hp_comware_exit_config_mode base (Some exit_command) None"
  by (simp add: enable_def check_enable_mode_def exit_enable_mode_def
      hp_comware_config_mode_def hp_comware_check_config_mode_def hp_comware_exit_config_mode_def
      arg_or_def)

end
